theory Spec2Isabelle
  imports Main "HOL-Library.Word" "HOL-Library.AList"
begin

unbundle bit_operations_syntax

section \<open>The mutex state word\<close>

text \<open>
  \<^verbatim>\<open>type Mutex struct { state int32; sema uint32 }\<close>.
  Go's \<^verbatim>\<open>int32\<close> arithmetic wraps around, \<^verbatim>\<open>>>\<close> on a signed integer is the
  arithmetic shift (\<open>signed_drop_bit\<close>), \<^verbatim>\<open>&^\<close> is AND NOT. The calls under
  \<^verbatim>\<open>race.Enabled\<close> instrument the race detector and do not touch the mutex; they are
  left out.
\<close>

type_synonym int32 = "32 word"
type_synonym uint32 = "32 word"
type_synonym int64 = "64 word"

record Mutex =
  state :: int32
  sema :: uint32

text \<open>The constants of \<^verbatim>\<open>sync/mutex.go\<close> (go1.16): \<^verbatim>\<open>1 << iota\<close> for iota = 0, 1, 2,
  then \<^verbatim>\<open>mutexWaiterShift = iota\<close> = 3.\<close>

definition mutexLocked :: int32 where
  "mutexLocked = push_bit 0 1"

definition mutexWoken :: int32 where
  "mutexWoken = push_bit 1 1"

definition mutexStarving :: int32 where
  "mutexStarving = push_bit 2 1"

definition mutexWaiterShift :: nat where
  "mutexWaiterShift = 3"

definition starvationThresholdNs :: int64 where
  "starvationThresholdNs = 1000000"

text \<open>The constants of the older mutex (the file without a starving bit): there
  \<^verbatim>\<open>mutexWaiterShift = iota\<close> = 2.\<close>

definition mutexLocked_old :: int32 where
  "mutexLocked_old = push_bit 0 1"

definition mutexWoken_old :: int32 where
  "mutexWoken_old = push_bit 1 1"

definition mutexWaiterShift_old :: nat where
  "mutexWaiterShift_old = 2"

text \<open>\<^verbatim>\<open>throw\<close> (go1.16) and \<^verbatim>\<open>panic\<close> (the older file), with their message.\<close>

datatype error = Throw string | Panic string

fun message :: "error \<Rightarrow> string" where
  "message (Throw s) = s"
| "message (Panic s) = s"

section \<open>The goroutine's view of the world\<close>

text \<open>
  The calls into the runtime that the mutex makes, in the order it makes them. The
  runtime is not part of the package; its calls are recorded.
\<close>

datatype call =
    SemacquireMutex bool   \<comment> \<open>\<^verbatim>\<open>runtime_SemacquireMutex(&m.sema, lifo, 1)\<close>\<close>
  | Semrelease bool        \<comment> \<open>\<^verbatim>\<open>runtime_Semrelease(&m.sema, handoff, 1)\<close>\<close>
  | DoSpin                 \<comment> \<open>\<^verbatim>\<open>runtime_doSpin()\<close>\<close>
  | Semacquire             \<comment> \<open>\<^verbatim>\<open>runtime_Semacquire(&m.sema)\<close> of the older file\<close>
  | Semrelease_old         \<comment> \<open>\<^verbatim>\<open>runtime_Semrelease(&m.sema)\<close> of the older file\<close>

text \<open>
  What the other goroutines do between two accesses of this goroutine to the mutex:
  they may leave another value in \<^verbatim>\<open>m.state\<close>, release the semaphore, and time passes.
\<close>

record other =
  set_state :: "int32 option"
  signal :: bool
  elapse :: int64

record world = Mutex +
  calls :: "call list"
  clock :: int64
  others :: "other list"

definition other_step :: "other \<Rightarrow> world \<Rightarrow> world" where
  "other_step e w =
     w\<lparr> state := (case set_state e of None \<Rightarrow> state w | Some v \<Rightarrow> v),
        sema := (if signal e then sema w + 1 else sema w),
        clock := clock w + elapse e \<rparr>"

definition env_step :: "world \<Rightarrow> world" where
  "env_step w =
     (case others w of
        [] \<Rightarrow> w
      | e # es \<Rightarrow> other_step e (w\<lparr> others := es \<rparr>))"

text \<open>The plain read \<^verbatim>\<open>m.state\<close> and the two operations of \<^verbatim>\<open>sync/atomic\<close>; each one
  sees what the other goroutines have done in the meantime.\<close>

definition load_state :: "world \<Rightarrow> int32 \<times> world" where
  "load_state w = (let w' = env_step w in (state w', w'))"

definition CompareAndSwapInt32 :: "int32 \<Rightarrow> int32 \<Rightarrow> world \<Rightarrow> bool \<times> world" where
  "CompareAndSwapInt32 old new w =
     (let w' = env_step w
      in if state w' = old then (True, w'\<lparr> state := new \<rparr>) else (False, w'))"

definition AddInt32 :: "int32 \<Rightarrow> world \<Rightarrow> int32 \<times> world" where
  "AddInt32 delta w =
     (let w' = env_step w; new = state w' + delta
      in (new, w'\<lparr> state := new \<rparr>))"

text \<open>
  Modelled from the spec: the semaphore-style parker of the runtime (``park the calling
  thread until signaled'' and ``signal one parked thread''), which is outside the package.
  A release counts one signal up on \<^verbatim>\<open>m.sema\<close>; an acquire takes one signal, waiting for
  the other goroutines to give one. \<open>None\<close>: no signal ever comes, the goroutine stays
  parked.
\<close>

fun sem_wait :: "other list \<Rightarrow> world \<Rightarrow> world option" where
  "sem_wait [] w =
     (if sema w \<noteq> 0 then Some (w\<lparr> sema := sema w - 1, others := [] \<rparr>) else None)"
| "sem_wait (e # es) w =
     (if sema w \<noteq> 0 then Some (w\<lparr> sema := sema w - 1, others := e # es \<rparr>)
      else sem_wait es (other_step e (w\<lparr> others := es \<rparr>)))"

text \<open>Modelled from the spec: \<^verbatim>\<open>runtime_SemacquireMutex\<close>, the park of go1.16; \<open>lifo\<close> asks
  for a place at the front of the queue.\<close>

definition runtime_SemacquireMutex :: "bool \<Rightarrow> world \<Rightarrow> world option" where
  "runtime_SemacquireMutex lifo w =
     sem_wait (others w) (w\<lparr> calls := calls w @ [SemacquireMutex lifo] \<rparr>)"

text \<open>Modelled from the spec: \<^verbatim>\<open>runtime_Semrelease\<close>, the signal of go1.16; \<open>handoff\<close> asks
  the runtime to pass the processor to the goroutine it wakes.\<close>

definition runtime_Semrelease :: "bool \<Rightarrow> world \<Rightarrow> world" where
  "runtime_Semrelease handoff w =
     w\<lparr> sema := sema w + 1, calls := calls w @ [Semrelease handoff] \<rparr>"

text \<open>Modelled from the spec: \<^verbatim>\<open>runtime_doSpin\<close>, the busy wait, and \<^verbatim>\<open>runtime_nanotime\<close>,
  the monotonic clock. \<^verbatim>\<open>runtime_canSpin\<close>, the spin heuristic, is a parameter of \<^verbatim>\<open>Lock\<close>.\<close>

definition runtime_doSpin :: "world \<Rightarrow> world" where
  "runtime_doSpin w = w\<lparr> calls := calls w @ [DoSpin] \<rparr>"

definition runtime_nanotime :: "world \<Rightarrow> int64" where
  "runtime_nanotime w = clock w"

text \<open>Modelled from the spec: \<^verbatim>\<open>runtime_Semacquire\<close> and \<^verbatim>\<open>runtime_Semrelease\<close> of the
  older file, the same park and signal without their flags.\<close>

definition runtime_Semacquire :: "world \<Rightarrow> world option" where
  "runtime_Semacquire w =
     sem_wait (others w) (w\<lparr> calls := calls w @ [Semacquire] \<rparr>)"

definition runtime_Semrelease_old :: "world \<Rightarrow> world" where
  "runtime_Semrelease_old w =
     w\<lparr> sema := sema w + 1, calls := calls w @ [Semrelease_old] \<rparr>"

text \<open>How a call of \<^verbatim>\<open>Lock\<close> or \<^verbatim>\<open>Unlock\<close> ends: it returns, it dies with a fatal error,
  or it stays parked on the semaphore for ever.\<close>

datatype outcome = Done world | Fatal error world | Parked world

section \<open>Lock (go1.16)\<close>

text \<open>
  The slow path is cut where the source is: the spin branch, the candidate state
  (\<^verbatim>\<open>new := old\<close> up to the compare-and-swap), the hand-off after waking in starvation
  mode, and the loop around them.
\<close>

text \<open>The body of the spin branch: try to set \<^verbatim>\<open>mutexWoken\<close>, spin, read the state again.\<close>

definition spin :: "bool \<Rightarrow> int32 \<Rightarrow> world \<Rightarrow> bool \<times> int32 \<times> world" where
  "spin awoke old w =
     (let (awoke', w1) =
        (if \<not> awoke \<and> old AND mutexWoken = 0 \<and> signed_drop_bit mutexWaiterShift old \<noteq> 0
         then (case CompareAndSwapInt32 old (old OR mutexWoken) w of
                 (True, w') \<Rightarrow> (True, w')
               | (False, w') \<Rightarrow> (awoke, w'))
         else (awoke, w));
          w2 = runtime_doSpin w1;
          (old', w3) = load_state w2
      in (awoke', old', w3))"

text \<open>The candidate new state, or the throw when a woken goroutine finds the woken bit clear.\<close>

definition candidate :: "bool \<Rightarrow> bool \<Rightarrow> int32 \<Rightarrow> error + int32" where
  "candidate starving awoke old =
     (let new = old;
          new = (if old AND mutexStarving = 0 then new OR mutexLocked else new);
          new = (if old AND (mutexLocked OR mutexStarving) \<noteq> 0
                 then new + push_bit mutexWaiterShift 1 else new);
          new = (if starving \<and> old AND mutexLocked \<noteq> 0 then new OR mutexStarving else new)
      in if awoke
         then (if new AND mutexWoken = 0 then Inl (Throw ''sync: inconsistent mutex state'')
               else Inr (new AND NOT mutexWoken))
         else Inr new)"

text \<open>The hand-off: \<^verbatim>\<open>old\<close> was read after waking and has \<^verbatim>\<open>mutexStarving\<close> set.\<close>

definition handoff :: "bool \<Rightarrow> int32 \<Rightarrow> world \<Rightarrow> outcome" where
  "handoff starving old w =
     (if old AND (mutexLocked OR mutexWoken) \<noteq> 0 \<or> signed_drop_bit mutexWaiterShift old = 0
      then Fatal (Throw ''sync: inconsistent mutex state'') w
      else let delta = mutexLocked - push_bit mutexWaiterShift 1;
               delta = (if \<not> starving \<or> signed_drop_bit mutexWaiterShift old = 1
                        then delta - mutexStarving else delta)
           in Done (snd (AddInt32 delta w)))"

text \<open>One turn of the \<^verbatim>\<open>for\<close> loop: either the loop goes on with new values of
  \<^verbatim>\<open>waitStartTime\<close>, \<^verbatim>\<open>starving\<close>, \<^verbatim>\<open>awoke\<close>, \<^verbatim>\<open>iter\<close> and \<^verbatim>\<open>old\<close>, or the call ends.\<close>

datatype step = Again int64 bool bool nat int32 world | Finish outcome

text \<open>What the goroutine does when \<^verbatim>\<open>runtime_SemacquireMutex\<close> has returned: it measures
  how long it has waited, reads the state, and either takes the hand-off or goes round
  the loop as a woken goroutine.\<close>

definition afterWake :: "int64 \<Rightarrow> bool \<Rightarrow> world \<Rightarrow> step" where
  "afterWake waitStartTime starving w =
     (let starving' = (starving \<or> starvationThresholdNs <s runtime_nanotime w - waitStartTime);
          (old, w') = load_state w
      in if old AND mutexStarving \<noteq> 0
         then Finish (handoff starving' old w')
         else Again waitStartTime starving' True 0 old w')"

definition lockSlow_iter ::
  "(nat \<Rightarrow> bool) \<Rightarrow> int64 \<Rightarrow> bool \<Rightarrow> bool \<Rightarrow> nat \<Rightarrow> int32 \<Rightarrow> world \<Rightarrow> step" where
  "lockSlow_iter runtime_canSpin waitStartTime starving awoke iter old w =
     (if old AND (mutexLocked OR mutexStarving) = mutexLocked \<and> runtime_canSpin iter
      then (case spin awoke old w of
              (awoke', old', w') \<Rightarrow> Again waitStartTime starving awoke' (iter + 1) old' w')
      else
        (case candidate starving awoke old of
           Inl e \<Rightarrow> Finish (Fatal e w)
         | Inr new \<Rightarrow>
            (case CompareAndSwapInt32 old new w of
               (True, w1) \<Rightarrow>
                 if old AND (mutexLocked OR mutexStarving) = 0 then Finish (Done w1)
                 else
                   let queueLifo = (waitStartTime \<noteq> 0);
                       waitStartTime' =
                         (if waitStartTime = 0 then runtime_nanotime w1 else waitStartTime)
                   in (case runtime_SemacquireMutex queueLifo w1 of
                         None \<Rightarrow>
                           Finish (Parked (w1\<lparr> calls := calls w1 @ [SemacquireMutex queueLifo] \<rparr>))
                       | Some w2 \<Rightarrow> afterWake waitStartTime' starving w2)
             | (False, w1) \<Rightarrow>
                 (case load_state w1 of
                    (old', w2) \<Rightarrow> Again waitStartTime starving awoke iter old' w2))))"

text \<open>The loop may spin or retry for ever: \<open>None\<close> is the loop still running when the
  fuel is used up.\<close>

fun lockSlow_loop ::
  "nat \<Rightarrow> (nat \<Rightarrow> bool) \<Rightarrow> int64 \<Rightarrow> bool \<Rightarrow> bool \<Rightarrow> nat \<Rightarrow> int32 \<Rightarrow> world \<Rightarrow> outcome option" where
  "lockSlow_loop 0 runtime_canSpin waitStartTime starving awoke iter old w = None"
| "lockSlow_loop (Suc fuel) runtime_canSpin waitStartTime starving awoke iter old w =
     (case lockSlow_iter runtime_canSpin waitStartTime starving awoke iter old w of
        Finish r \<Rightarrow> Some r
      | Again waitStartTime' starving' awoke' iter' old' w' \<Rightarrow>
          lockSlow_loop fuel runtime_canSpin waitStartTime' starving' awoke' iter' old' w')"

definition lockSlow :: "nat \<Rightarrow> (nat \<Rightarrow> bool) \<Rightarrow> world \<Rightarrow> outcome option" where
  "lockSlow fuel runtime_canSpin w =
     (case load_state w of
        (old, w') \<Rightarrow> lockSlow_loop fuel runtime_canSpin 0 False False 0 old w')"

definition Lock :: "nat \<Rightarrow> (nat \<Rightarrow> bool) \<Rightarrow> world \<Rightarrow> outcome option" where
  "Lock fuel runtime_canSpin w =
     (case CompareAndSwapInt32 0 mutexLocked w of
        (True, w') \<Rightarrow> Some (Done w')
      | (False, w') \<Rightarrow> lockSlow fuel runtime_canSpin w')"

section \<open>Unlock (go1.16)\<close>

text \<open>
  The loop of the normal mode. A turn that goes round again has seen the other
  goroutines change \<^verbatim>\<open>m.state\<close>, so the loop ends when they have stopped.
\<close>

function unlockSlow_loop :: "int32 \<Rightarrow> world \<Rightarrow> world" where
  "unlockSlow_loop old w =
     (if signed_drop_bit mutexWaiterShift old = 0
         \<or> old AND (mutexLocked OR mutexWoken OR mutexStarving) \<noteq> 0
      then w
      else
        let new = (old - push_bit mutexWaiterShift 1) OR mutexWoken
        in (case CompareAndSwapInt32 old new w of
              (True, w1) \<Rightarrow> runtime_Semrelease False w1
            | (False, w1) \<Rightarrow>
                (case load_state w1 of (old', w2) \<Rightarrow> unlockSlow_loop old' w2)))"
  by pat_completeness auto

termination
  by (relation "measure (\<lambda>(old, w). 2 * length (others w) + (if state w = old then 0 else 1))")
     (auto simp: CompareAndSwapInt32_def load_state_def env_step_def other_step_def Let_def
           split: list.splits if_splits)

definition unlockSlow :: "int32 \<Rightarrow> world \<Rightarrow> outcome" where
  "unlockSlow new w =
     (if (new + mutexLocked) AND mutexLocked = 0
      then Fatal (Throw ''sync: unlock of unlocked mutex'') w
      else if new AND mutexStarving = 0
      then Done (unlockSlow_loop new w)
      else Done (runtime_Semrelease True w))"

definition Unlock :: "world \<Rightarrow> outcome" where
  "Unlock w =
     (case AddInt32 (- mutexLocked) w of
        (new, w') \<Rightarrow> if new \<noteq> 0 then unlockSlow new w' else Done w')"

section \<open>The older mutex\<close>

text \<open>One turn of the loop of the older \<^verbatim>\<open>Lock\<close>: the loop goes on with a new value of
  \<^verbatim>\<open>awoke\<close>, or the call ends.\<close>

datatype step_old = Again_old bool world | Finish_old outcome

definition Lock_old_iter :: "bool \<Rightarrow> world \<Rightarrow> step_old" where
  "Lock_old_iter awoke w =
     (case load_state w of
        (old, w0) \<Rightarrow>
          let new = old OR mutexLocked_old;
              new = (if old AND mutexLocked_old \<noteq> 0
                     then old + push_bit mutexWaiterShift_old 1 else new);
              new = (if awoke then new AND NOT mutexWoken_old else new)
          in (case CompareAndSwapInt32 old new w0 of
                (True, w1) \<Rightarrow>
                  if old AND mutexLocked_old = 0 then Finish_old (Done w1)
                  else (case runtime_Semacquire w1 of
                          None \<Rightarrow> Finish_old (Parked (w1\<lparr> calls := calls w1 @ [Semacquire] \<rparr>))
                        | Some w2 \<Rightarrow> Again_old True w2)
              | (False, w1) \<Rightarrow> Again_old awoke w1))"

fun Lock_old_loop :: "nat \<Rightarrow> bool \<Rightarrow> world \<Rightarrow> outcome option" where
  "Lock_old_loop 0 awoke w = None"
| "Lock_old_loop (Suc fuel) awoke w =
     (case Lock_old_iter awoke w of
        Finish_old r \<Rightarrow> Some r
      | Again_old awoke' w' \<Rightarrow> Lock_old_loop fuel awoke' w')"

definition Lock_old :: "nat \<Rightarrow> world \<Rightarrow> outcome option" where
  "Lock_old fuel w =
     (case CompareAndSwapInt32 0 mutexLocked_old w of
        (True, w') \<Rightarrow> Some (Done w')
      | (False, w') \<Rightarrow> Lock_old_loop fuel False w')"

function Unlock_old_loop :: "int32 \<Rightarrow> world \<Rightarrow> world" where
  "Unlock_old_loop old w =
     (if signed_drop_bit mutexWaiterShift_old old = 0
         \<or> old AND (mutexLocked_old OR mutexWoken_old) \<noteq> 0
      then w
      else
        let new = (old - push_bit mutexWaiterShift_old 1) OR mutexWoken_old
        in (case CompareAndSwapInt32 old new w of
              (True, w1) \<Rightarrow> runtime_Semrelease_old w1
            | (False, w1) \<Rightarrow>
                (case load_state w1 of (old', w2) \<Rightarrow> Unlock_old_loop old' w2)))"
  by pat_completeness auto
termination
  by (relation "measure (\<lambda>(old, w). 2 * length (others w) + (if state w = old then 0 else 1))")
     (auto simp: CompareAndSwapInt32_def load_state_def env_step_def other_step_def Let_def
           split: list.splits if_splits)

definition Unlock_old :: "world \<Rightarrow> outcome" where
  "Unlock_old w =
     (case AddInt32 (- mutexLocked_old) w of
        (new, w') \<Rightarrow>
          if (new + mutexLocked_old) AND mutexLocked_old = 0
          then Fatal (Panic ''sync: unlock of unlocked mutex'') w'
          else Done (Unlock_old_loop new w'))"

section \<open>The fields of the state word\<close>

text \<open>
  The three flag bits, and the number held in the remaining 29 bits. The source tests the
  count with \<^verbatim>\<open>old>>mutexWaiterShift == 0\<close>, \<^verbatim>\<open>!= 0\<close> and \<^verbatim>\<open>== 1\<close> only, and the
  arithmetic shift is 0 (or 1) exactly when the number in these bits is.
\<close>

definition locked_bit :: "int32 \<Rightarrow> bool" where
  "locked_bit s \<longleftrightarrow> s AND mutexLocked \<noteq> 0"

definition woken_bit :: "int32 \<Rightarrow> bool" where
  "woken_bit s \<longleftrightarrow> s AND mutexWoken \<noteq> 0"

definition starving_bit :: "int32 \<Rightarrow> bool" where
  "starving_bit s \<longleftrightarrow> s AND mutexStarving \<noteq> 0"

definition waiterCount :: "int32 \<Rightarrow> nat" where
  "waiterCount s = unat (drop_bit mutexWaiterShift s)"

text \<open>The fatal error of an outcome, if it is one.\<close>

fun fatal_of :: "outcome \<Rightarrow> error option" where
  "fatal_of (Fatal e w) = Some e"
| "fatal_of (Done w) = None"
| "fatal_of (Parked w) = None"

text \<open>A goroutine alone with the mutex: nothing else touches it.\<close>

definition uncontended :: "world \<Rightarrow> bool" where
  "uncontended w \<longleftrightarrow> others w = []"

text \<open>The world of a mutex with state word \<open>s\<close> that no other goroutine touches.\<close>

definition quiet_world :: "int32 \<Rightarrow> world" where
  "quiet_world s = \<lparr> state = s, sema = 0, calls = [], clock = 0, others = [] \<rparr>"

text \<open>Other goroutines that do nothing between two accesses.\<close>

definition nothing :: other where
  "nothing = \<lparr> set_state = None, signal = False, elapse = 0 \<rparr>"

text \<open>\<open>n\<close> rounds of \<^verbatim>\<open>Lock\<close> then \<^verbatim>\<open>Unlock\<close> by one goroutine, with the state word after
  each call. \<open>None\<close>: a call did not return.\<close>

fun lock_unlock_trace ::
  "(world \<Rightarrow> outcome option) \<Rightarrow> (world \<Rightarrow> outcome) \<Rightarrow> nat \<Rightarrow> world \<Rightarrow> int32 list option" where
  "lock_unlock_trace lock unlock 0 w = Some []"
| "lock_unlock_trace lock unlock (Suc n) w =
     (case lock w of
        Some (Done w1) \<Rightarrow>
          (case unlock w1 of
             Done w2 \<Rightarrow>
               (case lock_unlock_trace lock unlock n w2 of
                  Some tr \<Rightarrow> Some (state w1 # state w2 # tr)
                | None \<Rightarrow> None)
           | _ \<Rightarrow> None)
      | _ \<Rightarrow> None)"

section \<open>The concurrent map\<close>

text \<open>
  Modelled from the spec: the ConcurrentMap, whose source is not among the files. The
  definitions follow sections 3 and 4.2 of the specification for one goroutine: every
  compare-and-swap on a slot succeeds and the lock is free when it is asked for.

  A slot holds a live value, the deleted marker (\<^verbatim>\<open>nil\<close>) or the expunged marker. The
  entries are objects that the read snapshot and the write map may share, so the maps hold
  references and the slots are kept apart, one for each reference.
\<close>

datatype 'v slot = Live 'v | Deleted | Expunged

type_synonym entry = nat

record ('k, 'v) ConcurrentMap =
  readSnapshot :: "('k \<times> entry) list"
  amended :: bool
  writeMap :: "('k \<times> entry) list"
  missCount :: nat
  slots :: "entry \<Rightarrow> 'v slot"
  fresh :: entry

text \<open>Modelled from the spec: the map before its first use.\<close>

definition newMap :: "('k, 'v) ConcurrentMap" where
  "newMap = \<lparr> readSnapshot = [], amended = False, writeMap = [], missCount = 0,
              slots = (\<lambda>e. Deleted), fresh = 0 \<rparr>"

text \<open>Modelled from the spec: the write map is ``nil when not in amended mode''.\<close>

definition well_formed :: "('k, 'v) ConcurrentMap \<Rightarrow> bool" where
  "well_formed m \<longleftrightarrow> (\<not> amended m \<longrightarrow> writeMap m = [])"

text \<open>Modelled from the spec: what a read of a slot returns, value and \<^verbatim>\<open>found\<close>.\<close>

fun slot_value :: "'v slot \<Rightarrow> 'v option \<times> bool" where
  "slot_value (Live v) = (Some v, True)"
| "slot_value Deleted = (None, False)"
| "slot_value Expunged = (None, False)"

text \<open>Modelled from the spec: miss accounting and promotion. ``When missCount reaches
  the size of writeMap, promote: replace readSnapshot wholesale with
  {map: writeMap, amended: false}, discard writeMap, reset missCount to zero.''\<close>

definition promote :: "('k, 'v) ConcurrentMap \<Rightarrow> ('k, 'v) ConcurrentMap" where
  "promote m = m\<lparr> readSnapshot := writeMap m, amended := False, writeMap := [], missCount := 0 \<rparr>"

definition recordMiss :: "('k, 'v) ConcurrentMap \<Rightarrow> ('k, 'v) ConcurrentMap" where
  "recordMiss m =
     (let m' = m\<lparr> missCount := missCount m + 1 \<rparr>
      in if missCount m' < length (remdups (map fst (writeMap m'))) then m' else promote m')"

text \<open>Modelled from the spec: the read path of \<^verbatim>\<open>load\<close>.\<close>

definition load :: "'k \<Rightarrow> ('k, 'v) ConcurrentMap \<Rightarrow> ('v option \<times> bool) \<times> ('k, 'v) ConcurrentMap" where
  "load key m =
     (case map_of (readSnapshot m) key of
        Some e \<Rightarrow> (slot_value (slots m e), m)
      | None \<Rightarrow>
          if \<not> amended m then ((None, False), m)
          else (case map_of (readSnapshot m) key of
                  Some e \<Rightarrow> (slot_value (slots m e), m)
                | None \<Rightarrow>
                   (case map_of (writeMap m) key of
                      Some e \<Rightarrow> (slot_value (slots m e), recordMiss m)
                    | None \<Rightarrow> ((None, False), recordMiss m))))"

text \<open>Modelled from the spec: the copy of the read snapshot that becomes the write map,
  ``expunging any already-deleted slots during the copy''.\<close>

fun copyLive ::
  "('k \<times> entry) list \<Rightarrow> (entry \<Rightarrow> 'v slot) \<Rightarrow> ('k \<times> entry) list \<times> (entry \<Rightarrow> 'v slot)" where
  "copyLive [] sl = ([], sl)"
| "copyLive ((k, e) # r) sl =
     (case sl e of
        Live v \<Rightarrow> (case copyLive r sl of (c, sl') \<Rightarrow> ((k, e) # c, sl'))
      | Deleted \<Rightarrow> copyLive r (sl(e := Expunged))
      | Expunged \<Rightarrow> copyLive r sl)"

text \<open>Modelled from the spec: the write path of \<^verbatim>\<open>store\<close>.\<close>

definition store :: "'k \<Rightarrow> 'v \<Rightarrow> ('k, 'v) ConcurrentMap \<Rightarrow> ('k, 'v) ConcurrentMap" where
  "store key v m =
     (case map_of (readSnapshot m) key of
        Some e \<Rightarrow>
          (case slots m e of
             Expunged \<Rightarrow>
               m\<lparr> writeMap := AList.update key e (writeMap m),
                  slots := ((slots m)(e := Deleted))(e := Live v) \<rparr>
           | _ \<Rightarrow> m\<lparr> slots := (slots m)(e := Live v) \<rparr>)
      | None \<Rightarrow>
          (case map_of (writeMap m) key of
             Some e \<Rightarrow> m\<lparr> slots := (slots m)(e := Live v) \<rparr>
           | None \<Rightarrow>
               let m1 = (if \<not> amended m
                         then (case copyLive (readSnapshot m) (slots m) of
                                 (c, sl) \<Rightarrow> m\<lparr> writeMap := c, slots := sl, amended := True \<rparr>)
                         else m);
                   e = fresh m1
               in m1\<lparr> writeMap := AList.update key e (writeMap m1),
                      slots := (slots m1)(e := Live v),
                      fresh := Suc e \<rparr>))"

text \<open>Modelled from the spec: what holds of every map that \<^verbatim>\<open>store\<close> and \<^verbatim>\<open>load\<close> can
  build. Besides \<open>well_formed\<close>, ``expunged entries exist only in readSnapshot'', and
  only in amended mode, since a promotion takes the write map as the snapshot.\<close>

definition map_invariant :: "('k, 'v) ConcurrentMap \<Rightarrow> bool" where
  "map_invariant m \<longleftrightarrow>
     (\<not> amended m \<longrightarrow>
        writeMap m = [] \<and> (\<forall>(k, e) \<in> set (readSnapshot m). slots m e \<noteq> Expunged))
     \<and> (\<forall>(k, e) \<in> set (writeMap m). slots m e \<noteq> Expunged)"

text \<open>Modelled from the spec: a run of \<^verbatim>\<open>store\<close> and \<^verbatim>\<open>load\<close> calls by one goroutine.\<close>

datatype ('k, 'v) map_op = Store 'k 'v | Load 'k

fun apply_op :: "('k, 'v) map_op \<Rightarrow> ('k, 'v) ConcurrentMap \<Rightarrow> ('k, 'v) ConcurrentMap" where
  "apply_op (Store k v) m = store k v m"
| "apply_op (Load k) m = snd (load k m)"

fun apply_ops :: "('k, 'v) map_op list \<Rightarrow> ('k, 'v) ConcurrentMap \<Rightarrow> ('k, 'v) ConcurrentMap" where
  "apply_ops [] m = m"
| "apply_ops (x # xs) m = apply_ops xs (apply_op x m)"

section \<open>Facts about the state word\<close>

declare unlockSlow_loop.simps [simp del]
declare Unlock_old_loop.simps [simp del]

subsection \<open>The flag bits\<close>

text \<open>Each flag constant is one bit, and each test of the source on a mask of flags is a
  test of the flag bits.\<close>

lemma and_single: "(x::int32) AND push_bit k 1 = (if bit x k then push_bit k 1 else 0)"
  by (rule bit_eqI) (auto simp: bit_simps)

lemma bit_single: "bit (push_bit k 1 :: int32) n \<longleftrightarrow> n = k \<and> k < 32"
  by (auto simp: bit_simps)

lemma const_bits:
  "bit mutexLocked n \<longleftrightarrow> n = 0" "bit mutexWoken n \<longleftrightarrow> n = 1" "bit mutexStarving n \<longleftrightarrow> n = 2"
  unfolding mutexLocked_def mutexWoken_def mutexStarving_def
  by (simp_all only: bit_single) simp_all

lemma const_nonzero: "mutexLocked \<noteq> 0" "mutexWoken \<noteq> 0" "mutexStarving \<noteq> 0"
  by (simp_all add: mutexLocked_def mutexWoken_def mutexStarving_def)

lemma flags_bits:
  "locked_bit s = bit s 0" "woken_bit s = bit s (Suc 0)" "starving_bit s = bit s 2"
  using and_single[of s 0] and_single[of s 1] and_single[of s 2]
  by (simp_all add: locked_bit_def woken_bit_def starving_bit_def
        mutexLocked_def mutexWoken_def mutexStarving_def)

lemma flag_tests:
  "x AND mutexLocked = 0 \<longleftrightarrow> \<not> locked_bit x"
  "x AND mutexWoken = 0 \<longleftrightarrow> \<not> woken_bit x"
  "x AND mutexStarving = 0 \<longleftrightarrow> \<not> starving_bit x"
  by (simp_all add: locked_bit_def woken_bit_def starving_bit_def)

lemma mask_tests:
  "x AND (mutexLocked OR mutexWoken) = 0 \<longleftrightarrow> \<not> locked_bit x \<and> \<not> woken_bit x"
  "x AND (mutexLocked OR mutexStarving) = 0 \<longleftrightarrow> \<not> locked_bit x \<and> \<not> starving_bit x"
  "x AND (mutexLocked OR mutexStarving) = mutexLocked \<longleftrightarrow> locked_bit x \<and> \<not> starving_bit x"
  "x AND (mutexLocked OR mutexWoken OR mutexStarving) = 0
     \<longleftrightarrow> \<not> locked_bit x \<and> \<not> woken_bit x \<and> \<not> starving_bit x"
  using and_single[of x 0] and_single[of x 1] and_single[of x 2]
  by (simp_all only: bit.conj_disj_distrib)
     (simp_all add: flags_bits mutexLocked_def mutexWoken_def mutexStarving_def)

text \<open>Setting and clearing a flag with \<^verbatim>\<open>|\<close> and \<^verbatim>\<open>&^\<close>, and with \<^verbatim>\<open>+\<close> and \<^verbatim>\<open>-\<close> where
  the bit is known: no carry and no borrow.\<close>

lemma flag_updates:
  "locked_bit (x OR mutexLocked)" "woken_bit (x OR mutexLocked) = woken_bit x"
  "starving_bit (x OR mutexLocked) = starving_bit x"
  "locked_bit (x OR mutexWoken) = locked_bit x" "woken_bit (x OR mutexWoken)"
  "starving_bit (x OR mutexWoken) = starving_bit x"
  "locked_bit (x OR mutexStarving) = locked_bit x" "woken_bit (x OR mutexStarving) = woken_bit x"
  "starving_bit (x OR mutexStarving)"
  "locked_bit (x AND NOT mutexWoken) = locked_bit x" "\<not> woken_bit (x AND NOT mutexWoken)"
  "starving_bit (x AND NOT mutexWoken) = starving_bit x"
  by (simp_all add: flags_bits bit_simps mutexLocked_def mutexWoken_def mutexStarving_def)

lemma flag_clears:
  "\<not> locked_bit (x AND NOT mutexLocked)" "woken_bit (x AND NOT mutexLocked) = woken_bit x"
  "starving_bit (x AND NOT mutexLocked) = starving_bit x"
  "locked_bit (x AND NOT mutexStarving) = locked_bit x"
  "woken_bit (x AND NOT mutexStarving) = woken_bit x"
  "\<not> starving_bit (x AND NOT mutexStarving)"
  by (simp_all add: flags_bits bit_simps const_bits)

lemma add_locked: "\<not> locked_bit x \<Longrightarrow> x + mutexLocked = x OR mutexLocked"
  by (rule disjunctive_add) (metis flags_bits(1) const_bits(1))

lemma sub_starving: "starving_bit x \<Longrightarrow> x - mutexStarving = x AND NOT mutexStarving"
  by (rule disjunctive_diff) (auto simp: flags_bits const_bits)

lemma parity_sub_locked: "locked_bit (x - mutexLocked) \<longleftrightarrow> \<not> locked_bit x"
  by (simp add: flags_bits mutexLocked_def bit_0)

subsection \<open>The waiter count\<close>

text \<open>The arithmetic shift of the source is 0 (or 1) exactly when the number in the
  upper 29 bits is.\<close>

lemma sdb_drop:
  "signed_drop_bit 3 (x::int32) = drop_bit 3 x \<or> (bit (signed_drop_bit 3 x) 28 \<and> bit (drop_bit 3 x) 28)"
proof (cases "bit x 31")
  case True
  then show ?thesis by (simp add: bit_simps)
next
  case False
  have "signed_drop_bit 3 x = drop_bit 3 x"
  proof (rule bit_eqI)
    fix n
    show "bit (signed_drop_bit 3 x) n = bit (drop_bit 3 x) n"
      using False by (auto simp: bit_simps dest: bit_imp_le_length)
  qed
  then show ?thesis ..
qed

lemma waiters_zero: "signed_drop_bit mutexWaiterShift s = 0 \<longleftrightarrow> waiterCount s = 0"
  using sdb_drop[of s] by (auto simp: waiterCount_def mutexWaiterShift_def unat_eq_0)

lemma waiters_one: "signed_drop_bit mutexWaiterShift s = 1 \<longleftrightarrow> waiterCount s = 1"
proof -
  have n1: "\<not> bit (1::int32) 28" by simp
  have "signed_drop_bit 3 s = 1 \<longleftrightarrow> drop_bit 3 s = 1"
    using sdb_drop[of s] n1 by metis
  then show ?thesis
    using word_unat_eq_iff[of "drop_bit 3 s" 1] by (simp add: waiterCount_def mutexWaiterShift_def)
qed

text \<open>Adding and taking \<^verbatim>\<open>1 << mutexWaiterShift\<close> leaves the flags alone; setting and
  clearing flags leaves the count alone.\<close>

lemma take3_add: "take_bit 3 (x + push_bit 3 k) = take_bit 3 (x::int32)"
  by transfer (simp add: take_bit_eq_mod push_bit_eq_mult)

lemma take3_sub: "take_bit 3 (x - push_bit 3 k) = take_bit 3 (x::int32)"
  using take3_add[of "x - push_bit 3 k" k] by simp

lemma flags_take3:
  "locked_bit (take_bit 3 x) = locked_bit x" "woken_bit (take_bit 3 x) = woken_bit x"
  "starving_bit (take_bit 3 x) = starving_bit x"
  by (simp_all add: flags_bits bit_simps)

lemma flags_add_push:
  "locked_bit (x + push_bit mutexWaiterShift k) = locked_bit x"
  "woken_bit (x + push_bit mutexWaiterShift k) = woken_bit x"
  "starving_bit (x + push_bit mutexWaiterShift k) = starving_bit x"
  using flags_take3[of "x + push_bit 3 k"]
  by (simp_all only: take3_add flags_take3 mutexWaiterShift_def)

lemma flags_sub_push:
  "locked_bit (x - push_bit mutexWaiterShift k) = locked_bit x"
  "woken_bit (x - push_bit mutexWaiterShift k) = woken_bit x"
  "starving_bit (x - push_bit mutexWaiterShift k) = starving_bit x"
  using flags_take3[of "x - push_bit 3 k"]
  by (simp_all only: take3_sub flags_take3 mutexWaiterShift_def)

text \<open>\<^verbatim>\<open>1 << mutexWaiterShift\<close>, one waiter, as the simplifier writes it.\<close>

lemma flags_add_waiter:
  "locked_bit (x + 2 ^ mutexWaiterShift) = locked_bit x"
  "woken_bit (x + 2 ^ mutexWaiterShift) = woken_bit x"
  "starving_bit (x + 2 ^ mutexWaiterShift) = starving_bit x"
  using flags_add_push[of x 1] by (simp_all only: push_bit_of_1)

lemma flags_sub_waiter:
  "locked_bit (x - 2 ^ mutexWaiterShift) = locked_bit x"
  "woken_bit (x - 2 ^ mutexWaiterShift) = woken_bit x"
  "starving_bit (x - 2 ^ mutexWaiterShift) = starving_bit x"
  using flags_sub_push[of x 1] by (simp_all only: push_bit_of_1)

lemma drop3_flags:
  "drop_bit 3 (x OR mutexLocked) = drop_bit 3 x"
  "drop_bit 3 (x OR mutexWoken) = drop_bit 3 x"
  "drop_bit 3 (x OR mutexStarving) = drop_bit 3 x"
  "drop_bit 3 (x AND NOT mutexLocked) = drop_bit 3 x"
  "drop_bit 3 (x AND NOT mutexWoken) = drop_bit 3 x"
  "drop_bit 3 (x AND NOT mutexStarving) = drop_bit 3 x"
  by (rule bit_eqI, auto simp: bit_simps const_bits dest: bit_imp_le_length)+

lemma waiterCount_flags:
  "waiterCount (x OR mutexLocked) = waiterCount x"
  "waiterCount (x OR mutexWoken) = waiterCount x"
  "waiterCount (x OR mutexStarving) = waiterCount x"
  "waiterCount (x AND NOT mutexLocked) = waiterCount x"
  "waiterCount (x AND NOT mutexWoken) = waiterCount x"
  "waiterCount (x AND NOT mutexStarving) = waiterCount x"
  by (simp_all only: waiterCount_def mutexWaiterShift_def drop3_flags)

lemma waiterCount_div: "waiterCount x = unat x div 8"
  by (simp only: waiterCount_def mutexWaiterShift_def unat_drop_bit_eq)
     (simp add: drop_bit_eq_div)

lemma waiterCount_dec:
  assumes "waiterCount x \<noteq> 0"
  shows "waiterCount (x - 2 ^ mutexWaiterShift) = waiterCount x - 1"
proof -
  have "8 \<le> unat x" using assms by (simp add: waiterCount_div)
  then have "(8::int32) \<le> x" by (simp add: word_le_nat_alt)
  then have "unat (x - 8) = unat x - 8" by (simp add: unat_sub)
  then show ?thesis using \<open>8 \<le> unat x\<close>
    by (simp add: waiterCount_div mutexWaiterShift_def)
qed

lemma waiterCount_inc:
  "waiterCount (x + 2 ^ mutexWaiterShift) = (waiterCount x + 1) mod 2 ^ 29"
proof -
  have "unat (x + 8) = (unat x + 8) mod 2 ^ 32"
    by (simp add: unat_word_ariths)
  moreover have "(unat x + 8) mod 2 ^ 32 div 2 ^ 3 = (unat x + 8) div 2 ^ 3 mod 2 ^ 29"
    using div_exp_mod_exp_eq[of "unat x + 8" 3 29] by simp
  moreover have "(unat x + 8) div 8 = Suc (unat x div 8)"
    by simp
  ultimately show ?thesis
    by (simp add: waiterCount_div mutexWaiterShift_def)
qed

lemmas word_view = flag_tests mask_tests waiters_zero waiters_one

lemmas field_defs = locked_bit_def woken_bit_def starving_bit_def waiterCount_def
  mutexLocked_def mutexWoken_def mutexStarving_def mutexWaiterShift_def

text \<open>The add of the hand-off, \<^verbatim>\<open>delta\<close> with and without \<^verbatim>\<open>mutexStarving\<close>, on a word
  that is not locked.\<close>

lemma handoff_add_keep:
  assumes "\<not> locked_bit s"
  shows "s + (mutexLocked - 2 ^ mutexWaiterShift)
           = (s OR mutexLocked) - 2 ^ mutexWaiterShift"
proof -
  have "s + (mutexLocked - 2 ^ mutexWaiterShift)
          = (s + mutexLocked) - 2 ^ mutexWaiterShift"
    by simp
  then show ?thesis using add_locked[OF assms] by simp
qed

lemma handoff_add_clear:
  assumes "\<not> locked_bit s" "starving_bit s"
  shows "s + (mutexLocked - 2 ^ mutexWaiterShift - mutexStarving)
           = ((s OR mutexLocked) AND NOT mutexStarving) - 2 ^ mutexWaiterShift"
proof -
  have "s + (mutexLocked - 2 ^ mutexWaiterShift - mutexStarving)
          = ((s + mutexLocked) - mutexStarving) - 2 ^ mutexWaiterShift"
    by simp
  moreover have "starving_bit (s OR mutexLocked)"
    using assms(2) by (simp add: flag_updates)
  ultimately show ?thesis
    using add_locked[OF assms(1)] sub_starving[of "s OR mutexLocked"] by simp
qed

section \<open>Facts about Unlock\<close>

lemma env_step_calls: "calls (env_step w) = calls w"
  by (simp add: env_step_def other_step_def split: list.splits)

lemma AddInt32_unlock:
  "AddInt32 (- mutexLocked) w
     = (state (env_step w) - mutexLocked,
        (env_step w)\<lparr> state := state (env_step w) - mutexLocked \<rparr>)"
  by (simp add: AddInt32_def Let_def)

lemma readd_locked:
  "(x - mutexLocked + mutexLocked) AND mutexLocked = 0 \<longleftrightarrow> \<not> locked_bit x"
  by (simp add: word_view)

lemma sub_locked_nonzero: "\<not> locked_bit x \<Longrightarrow> x - mutexLocked \<noteq> 0"
  using parity_sub_locked[of x] by (auto simp: locked_bit_def)

lemma Unlock_fatal:
  "fatal_of (Unlock w) =
     (if locked_bit (state (env_step w)) then None
      else Some (Throw ''sync: unlock of unlocked mutex''))"
  using sub_locked_nonzero[of "state (env_step w)"] readd_locked[of "state (env_step w)"]
  by (auto simp: Unlock_def AddInt32_unlock unlockSlow_def)

lemma Unlock_old_fatal:
  "fatal_of (Unlock_old w) =
     (if locked_bit (state (env_step w)) then None
      else Some (Panic ''sync: unlock of unlocked mutex''))"
  using readd_locked[of "state (env_step w)"] AddInt32_unlock[of w]
  by (auto simp: Unlock_old_def mutexLocked_old_def mutexLocked_def)

lemma Unlock_returns:
  assumes "locked_bit (state (env_step w))"
  shows "\<exists>w'. Unlock w = Done w'" and "\<exists>w'. Unlock_old w = Done w'"
  using assms readd_locked[of "state (env_step w)"] AddInt32_unlock[of w]
  by (auto simp: Unlock_def unlockSlow_def Unlock_old_def mutexLocked_old_def mutexLocked_def)

section \<open>One goroutine alone\<close>

lemma env_step_uncontended: "uncontended w \<Longrightarrow> env_step w = w"
  by (simp add: uncontended_def env_step_def)

lemma Lock_free:
  assumes "state w = 0" and "uncontended w"
  shows "Lock fuel runtime_canSpin w = Some (Done (w\<lparr> state := mutexLocked \<rparr>))"
  using assms by (simp add: Lock_def CompareAndSwapInt32_def env_step_uncontended)

lemma Lock_old_free:
  assumes "state w = 0" and "uncontended w"
  shows "Lock_old fuel w = Some (Done (w\<lparr> state := mutexLocked \<rparr>))"
  using assms
  by (simp add: Lock_old_def CompareAndSwapInt32_def env_step_uncontended
        mutexLocked_old_def mutexLocked_def)

lemma Unlock_held:
  assumes "state w = mutexLocked" and "uncontended w"
  shows "Unlock w = Done (w\<lparr> state := 0 \<rparr>)"
  using assms by (simp add: Unlock_def AddInt32_def env_step_uncontended)

lemma Unlock_old_held:
  assumes "state w = mutexLocked" and "uncontended w"
  shows "Unlock_old w = Done (w\<lparr> state := 0 \<rparr>)"
  using assms
  by (simp add: Unlock_old_def AddInt32_def env_step_uncontended Unlock_old_loop.simps
        mutexLocked_old_def mutexLocked_def)

lemma trace_go116:
  assumes "state w = 0" and "uncontended w"
  shows "lock_unlock_trace (Lock fuel runtime_canSpin) Unlock n w
           = Some (concat (replicate n [mutexLocked, 0]))"
  using assms
proof (induction n arbitrary: w)
  case 0
  then show ?case by simp
next
  case (Suc n)
  let ?w1 = "w\<lparr> state := mutexLocked \<rparr>"
  let ?w2 = "?w1\<lparr> state := 0 \<rparr>"
  have l: "Lock fuel runtime_canSpin w = Some (Done ?w1)"
    using Suc.prems by (rule Lock_free)
  have u: "Unlock ?w1 = Done ?w2"
    using Suc.prems by (intro Unlock_held) (simp_all add: uncontended_def)
  have "lock_unlock_trace (Lock fuel runtime_canSpin) Unlock n ?w2
           = Some (concat (replicate n [mutexLocked, 0]))"
    using Suc.prems by (intro Suc.IH) (simp_all add: uncontended_def)
  then show ?case
    by (simp add: l u)
qed

lemma trace_old:
  assumes "state w = 0" and "uncontended w"
  shows "lock_unlock_trace (Lock_old fuel) Unlock_old n w
           = Some (concat (replicate n [mutexLocked, 0]))"
  using assms
proof (induction n arbitrary: w)
  case 0
  then show ?case by simp
next
  case (Suc n)
  let ?w1 = "w\<lparr> state := mutexLocked \<rparr>"
  let ?w2 = "?w1\<lparr> state := 0 \<rparr>"
  have l: "Lock_old fuel w = Some (Done ?w1)"
    using Suc.prems by (rule Lock_old_free)
  have u: "Unlock_old ?w1 = Done ?w2"
    using Suc.prems by (intro Unlock_old_held) (simp_all add: uncontended_def)
  have "lock_unlock_trace (Lock_old fuel) Unlock_old n ?w2
           = Some (concat (replicate n [mutexLocked, 0]))"
    using Suc.prems by (intro Suc.IH) (simp_all add: uncontended_def)
  then show ?case
    by (simp add: l u)
qed

section \<open>The slow path of Lock at work\<close>

text \<open>Four runs of \<^verbatim>\<open>Lock\<close> on a mutex that is held, with \<^verbatim>\<open>runtime_canSpin\<close> always
  false in the first three.\<close>

lemmas run_defs = Lock_def lockSlow_def lockSlow_iter_def spin_def candidate_def handoff_def
  afterWake_def CompareAndSwapInt32_def AddInt32_def load_state_def env_step_def other_step_def
  runtime_SemacquireMutex_def runtime_nanotime_def runtime_doSpin_def
  starvationThresholdNs_def Let_def

text \<open>Normal mode. The mutex is held (state 1); the goroutine queues (state 9) and parks;
  the holder unlocks and wakes it (state 2, one signal, 500 ns later); it takes the lock.\<close>

lemma Lock_after_wakeup:
  "Lock (Suc (Suc 0)) (\<lambda>i. False)
     \<lparr> state = 1, sema = 0, calls = [], clock = 5,
       others = [nothing, nothing, nothing,
                 \<lparr> set_state = Some 2, signal = True, elapse = 500 \<rparr>] \<rparr>
   = Some (Done \<lparr> state = 1, sema = 0, calls = [SemacquireMutex False], clock = 505,
                  others = [] \<rparr>)"
  by (simp add: run_defs nothing_def field_defs word_sless_alt)

text \<open>Starvation mode. The goroutine is parked as the only waiter; the mutex is handed to
  it (state 12: starving, not locked, one waiter); it takes the lock and, as the last
  waiter, ends the starvation mode.\<close>

lemma Lock_by_handoff:
  "Lock (Suc 0) (\<lambda>i. False)
     \<lparr> state = 5, sema = 0, calls = [], clock = 5,
       others = [nothing, nothing, nothing,
                 \<lparr> set_state = Some 12, signal = True, elapse = 2000000 \<rparr>] \<rparr>
   = Some (Done \<lparr> state = 1, sema = 0, calls = [SemacquireMutex False], clock = 2000005,
                  others = [] \<rparr>)"
  by (simp add: run_defs nothing_def field_defs word_sless_alt)

text \<open>Nobody ever unlocks: the goroutine stays parked.\<close>

lemma Lock_parked:
  "Lock (Suc 0) (\<lambda>i. False) (quiet_world 1)
   = Some (Parked ((quiet_world 9)\<lparr> calls := [SemacquireMutex False] \<rparr>))"
  by (simp add: run_defs quiet_world_def field_defs)

text \<open>Spinning for ever uses up any fuel.\<close>

lemma spin_for_ever:
  assumes "state w = 1" and "others w = []"
  shows "lockSlow_loop fuel (\<lambda>i. True) waitStartTime starving awoke iter 1 w = None"
  using assms
proof (induction fuel arbitrary: awoke iter w)
  case 0
  then show ?case by simp
next
  case (Suc fuel)
  let ?w = "w\<lparr> calls := calls w @ [DoSpin] \<rparr>"
  have "lockSlow_iter (\<lambda>i. True) waitStartTime starving awoke iter 1 w
          = Again waitStartTime starving awoke (iter + 1) 1 ?w"
    using Suc.prems
    by (simp add: lockSlow_iter_def spin_def load_state_def env_step_def runtime_doSpin_def
          field_defs)
  moreover have "lockSlow_loop fuel (\<lambda>i. True) waitStartTime starving awoke (iter + 1) 1 ?w = None"
    using Suc.prems by (intro Suc.IH) simp_all
  ultimately show ?case by simp
qed

lemma Lock_spins: "Lock fuel (\<lambda>i. True) (quiet_world 1) = None"
  using spin_for_ever[of "quiet_world 1" fuel 0 False False 0]
  by (simp add: Lock_def lockSlow_def CompareAndSwapInt32_def load_state_def env_step_def
        quiet_world_def field_defs)

section \<open>Unlock of an unlocked mutex\<close>

text \<open>
  C2, as the code has it. \<^verbatim>\<open>Unlock\<close> (go1.16, and the older one) ends in the fatal error
  ``sync: unlock of unlocked mutex'' exactly when the locked bit is clear in the state
  word that the atomic subtraction finds; when the bit is set, the call returns. The
  subtraction borrows: from a word without the locked bit it gives a word \<^emph>\<open>with\<close> the
  locked bit, and the test of the source, \<^verbatim>\<open>(new+mutexLocked)&mutexLocked == 0\<close>, looks at
  the word with the locked bit added back.
\<close>

theorem Unlock_fatal_iff:
  "fatal_of (Unlock w) =
     (if locked_bit (state (env_step w)) then None
      else Some (Throw ''sync: unlock of unlocked mutex''))
   \<and> fatal_of (Unlock_old w) =
     (if locked_bit (state (env_step w)) then None
      else Some (Panic ''sync: unlock of unlocked mutex''))
   \<and> (locked_bit (state (env_step w)) \<longrightarrow>
        (\<exists>w'. Unlock w = Done w') \<and> (\<exists>w'. Unlock_old w = Done w'))
   \<and> (locked_bit (fst (AddInt32 (- mutexLocked) w)) \<longleftrightarrow> \<not> locked_bit (state (env_step w)))
   \<and> ((fst (AddInt32 (- mutexLocked) w) + mutexLocked) AND mutexLocked = 0
        \<longleftrightarrow> \<not> locked_bit (state (env_step w)))"
  using Unlock_fatal[of w] Unlock_old_fatal[of w] Unlock_returns[of w]
    readd_locked[of "state (env_step w)"] parity_sub_locked[of "state (env_step w)"]
  by (simp add: AddInt32_unlock)

theorem Unlock_fatal_iff_witness:
  "locked_bit (state (env_step (quiet_world 1)))
   \<and> (\<exists>w'. Unlock (quiet_world 1) = Done w')
   \<and> \<not> locked_bit (state (env_step (quiet_world 0)))
   \<and> fatal_of (Unlock (quiet_world 0)) = Some (Throw ''sync: unlock of unlocked mutex'')
   \<and> fatal_of (Unlock_old (quiet_world 0)) = Some (Panic ''sync: unlock of unlocked mutex'')"
  using Unlock_fatal_iff[of "quiet_world 1"] Unlock_fatal_iff[of "quiet_world 0"]
  by (simp add: quiet_world_def env_step_def field_defs)

text \<open>The claim as the spec words it fails: the state word 0 does not hold the lock, and
  subtracting the locked bit from it gives \<open>-1\<close>, whose locked bit is set, not clear.\<close>

theorem Unlock_subtract_counterexample:
  "\<not> locked_bit (state (quiet_world 0))
   \<and> fst (AddInt32 (- mutexLocked) (quiet_world 0)) = - 1
   \<and> fst (AddInt32 (- mutexLocked) (quiet_world 0)) AND mutexLocked \<noteq> 0"
  by (simp add: quiet_world_def AddInt32_def env_step_def Let_def field_defs)

section \<open>The hand-off after waking\<close>

text \<open>
  C7. In the hand-off branch (the state read after waking has the starving bit), the call
  ends in the fatal error ``sync: inconsistent mutex state'' if and only if that state
  has the locked bit, or the woken bit, or no waiter; the state word is left as it was
  read. Otherwise the call returns.
\<close>

theorem handoff_check:
  assumes "old = state (env_step w)" and "starving_bit old"
  shows "(locked_bit old \<or> woken_bit old \<or> waiterCount old = 0 \<longrightarrow>
            afterWake waitStartTime starving w
              = Finish (Fatal (Throw ''sync: inconsistent mutex state'') (env_step w)))
       \<and> (\<not> (locked_bit old \<or> woken_bit old \<or> waiterCount old = 0) \<longrightarrow>
            (\<exists>w'. afterWake waitStartTime starving w = Finish (Done w')))"
  using assms
  by (auto simp: afterWake_def handoff_def load_state_def Let_def word_view)

theorem handoff_check_witness:
  "starving_bit 13 \<and> locked_bit 13
   \<and> afterWake 0 False (quiet_world 13)
       = Finish (Fatal (Throw ''sync: inconsistent mutex state'') (quiet_world 13))
   \<and> starving_bit 12 \<and> \<not> locked_bit 12 \<and> \<not> woken_bit 12 \<and> waiterCount 12 \<noteq> 0
   \<and> (\<exists>w'. afterWake 0 False (quiet_world 12) = Finish (Done w'))"
  using handoff_check[of 13 "quiet_world 13" 0 False] handoff_check[of 12 "quiet_world 12" 0 False]
  by (simp add: quiet_world_def env_step_def field_defs)

text \<open>
  C4. When the state read after waking has the starving bit and passes the consistency
  check, the goroutine makes one atomic add and returns with the lock: the add sets the
  locked bit, takes one from the waiter count, and clears the starving bit if and only if
  the waiter count read was one or the goroutine is not starving. The add works on the
  word as it is then; the theorem takes it still in hand-off shape (starving, not
  locked, a waiter), as it is when only new waiters have queued since the read.
\<close>

theorem handoff_fixup:
  assumes "old = state (env_step w)" and "starving_bit old"
    and "\<not> locked_bit old" and "\<not> woken_bit old" and "waiterCount old \<noteq> 0"
    and "s = state (env_step (env_step w))" and "starving_bit s"
    and "\<not> locked_bit s" and "waiterCount s \<noteq> 0"
  shows "\<exists>w'. afterWake waitStartTime starving w = Finish (Done w')
           \<and> w' = (env_step (env_step w))\<lparr> state := state w' \<rparr>
           \<and> locked_bit (state w') \<and> woken_bit (state w') = woken_bit s
           \<and> waiterCount (state w') = waiterCount s - 1
           \<and> (\<not> starving_bit (state w') \<longleftrightarrow>
                 waiterCount old = 1
                 \<or> \<not> (starving \<or> starvationThresholdNs <s runtime_nanotime w - waitStartTime))"
proof -
  let ?st = "starving \<or> starvationThresholdNs <s runtime_nanotime w - waitStartTime"
  let ?w2 = "env_step (env_step w)"
  let ?keep = "(s OR mutexLocked) - 2 ^ mutexWaiterShift"
  let ?clear = "((s OR mutexLocked) AND NOT mutexStarving) - 2 ^ mutexWaiterShift"
  let ?new = "if \<not> ?st \<or> waiterCount old = 1 then ?clear else ?keep"
  have run: "afterWake waitStartTime starving w = Finish (Done (?w2\<lparr> state := ?new \<rparr>))"
    using assms handoff_add_keep[of s] handoff_add_clear[of s]
    by (simp add: afterWake_def handoff_def load_state_def AddInt32_def Let_def word_view)
  have keep: "locked_bit ?keep" "woken_bit ?keep = woken_bit s" "starving_bit ?keep"
      "waiterCount ?keep = waiterCount s - 1"
    using assms by (simp_all add: flags_sub_waiter flag_updates waiterCount_dec waiterCount_flags)
  have clear: "locked_bit ?clear" "woken_bit ?clear = woken_bit s" "\<not> starving_bit ?clear"
      "waiterCount ?clear = waiterCount s - 1"
    using assms
    by (simp_all add: flags_sub_waiter flag_updates flag_clears waiterCount_dec waiterCount_flags)
  show ?thesis
    unfolding run using keep clear by auto
qed

text \<open>The witness: the goroutine is the only waiter (state 12) and takes the lock
  (state 1); then the same with a second goroutine that queues between the read and the
  add (state 20), which leaves one waiter behind (state 9).\<close>

theorem handoff_fixup_witness:
  "starving_bit 12 \<and> \<not> locked_bit 12 \<and> \<not> woken_bit 12 \<and> waiterCount 12 = 1
   \<and> starving_bit 20 \<and> \<not> locked_bit 20 \<and> waiterCount 20 = 2
   \<and> (\<exists>w'. afterWake 0 False (quiet_world 12) = Finish (Done w') \<and> state w' = 1)
   \<and> (\<exists>w'. afterWake 0 False
               ((quiet_world 12)\<lparr> others := [nothing, nothing\<lparr> set_state := Some 20 \<rparr>] \<rparr>)
             = Finish (Done w') \<and> state w' = 9)
   \<and> locked_bit 9 \<and> \<not> starving_bit 9 \<and> waiterCount 9 = 1"
  using handoff_fixup[of 12 "quiet_world 12" 12 0 False]
    handoff_fixup[of 12
      "(quiet_world 12)\<lparr> others := [nothing, nothing\<lparr> set_state := Some 20 \<rparr>] \<rparr>" 20 0 False]
  by (auto simp: quiet_world_def nothing_def env_step_def other_step_def field_defs
        afterWake_def handoff_def load_state_def AddInt32_def)

section \<open>The candidate state of the slow path\<close>

text \<open>
  C5. The candidate state is \<^verbatim>\<open>old\<close> with: the locked bit set if the starving bit of
  \<^verbatim>\<open>old\<close> is clear (else the locked bit as in \<^verbatim>\<open>old\<close>); the waiter count one higher
  (in its 29 bits) if \<^verbatim>\<open>old\<close> is locked or starving (else as in \<^verbatim>\<open>old\<close>); the starving
  bit set if the goroutine is starving and \<^verbatim>\<open>old\<close> is locked (else as in \<^verbatim>\<open>old\<close>); the
  woken bit cleared if the goroutine was woken (else as in \<^verbatim>\<open>old\<close>). A woken goroutine
  that finds the woken bit clear throws ``sync: inconsistent mutex state'', and the turn
  of the loop that is not a spin ends the call with it.
\<close>

theorem candidate_state:
  "(awoke \<and> \<not> woken_bit old \<longrightarrow>
      candidate starving awoke old = Inl (Throw ''sync: inconsistent mutex state''))
   \<and> (\<not> (awoke \<and> \<not> woken_bit old) \<longrightarrow>
        (\<exists>new. candidate starving awoke old = Inr new
           \<and> locked_bit new = (if starving_bit old then locked_bit old else True)
           \<and> waiterCount new =
               (if locked_bit old \<or> starving_bit old
                then (waiterCount old + 1) mod 2 ^ 29 else waiterCount old)
           \<and> starving_bit new = (if starving \<and> locked_bit old then True else starving_bit old)
           \<and> woken_bit new = (if awoke then False else woken_bit old)))
   \<and> (\<not> (locked_bit old \<and> \<not> starving_bit old \<and> runtime_canSpin iter)
        \<and> awoke \<and> \<not> woken_bit old \<longrightarrow>
        lockSlow_iter runtime_canSpin waitStartTime starving awoke iter old w
          = Finish (Fatal (Throw ''sync: inconsistent mutex state'') w))"
  by (auto simp: candidate_def lockSlow_iter_def Let_def word_view flag_updates flags_add_waiter
        waiterCount_inc waiterCount_flags)

theorem candidate_state_witness:
  "woken_bit 10 \<and> \<not> locked_bit 10 \<and> \<not> starving_bit 10 \<and> waiterCount 10 = 1
   \<and> candidate False True 10 = Inr 9
   \<and> locked_bit 9 \<and> \<not> woken_bit 9 \<and> \<not> starving_bit 9 \<and> waiterCount 9 = 1
   \<and> candidate True True 9 = Inl (Throw ''sync: inconsistent mutex state'')
   \<and> lockSlow_iter (\<lambda>i. False) 0 True True 0 9 (quiet_world 9)
       = Finish (Fatal (Throw ''sync: inconsistent mutex state'') (quiet_world 9))"
  using candidate_state[of True 10 False "\<lambda>i. False" 0 0 "quiet_world 10"]
    candidate_state[of True 9 True "\<lambda>i. False" 0 0 "quiet_world 9"]
  by (simp add: candidate_def field_defs)

section \<open>The slow path of Unlock\<close>

text \<open>
  C6. Normal mode: the state after the subtraction has the starving bit clear (and the
  lock was held, so the locked bit is clear). The slow path is then the loop, and a turn
  of the loop on the state \<^verbatim>\<open>old\<close> it has read
  \<^item> returns, with no call to the runtime and nothing written, when \<^verbatim>\<open>old\<close> has no
    waiter or has the locked, the woken or the starving bit;
  \<^item> otherwise, when \<^verbatim>\<open>m.state\<close> is still \<^verbatim>\<open>old\<close>, swaps in \<^verbatim>\<open>old\<close> with one waiter
    less and the woken bit set, calls \<^verbatim>\<open>runtime_Semrelease(&m.sema, false, 1)\<close> once and
    returns;
  \<^item> otherwise (the swap fails) reads the state again and goes round with it.
\<close>

theorem unlock_normal_mode:
  "(\<not> locked_bit new \<and> \<not> starving_bit new \<longrightarrow>
      unlockSlow new w = Done (unlockSlow_loop new w))
   \<and> (waiterCount old = 0 \<or> locked_bit old \<or> woken_bit old \<or> starving_bit old \<longrightarrow>
        unlockSlow_loop old w = w)
   \<and> (waiterCount old \<noteq> 0 \<and> \<not> locked_bit old \<and> \<not> woken_bit old \<and> \<not> starving_bit old \<longrightarrow>
        (if state (env_step w) = old
         then (\<exists>w'. unlockSlow_loop old w = w'
                 \<and> state w' = (old - 2 ^ mutexWaiterShift) OR mutexWoken
                 \<and> waiterCount (state w') = waiterCount old - 1
                 \<and> woken_bit (state w') \<and> \<not> locked_bit (state w') \<and> \<not> starving_bit (state w')
                 \<and> calls w' = calls w @ [Semrelease False])
         else unlockSlow_loop old w
                = unlockSlow_loop (state (env_step (env_step w))) (env_step (env_step w))))"
proof -
  let ?new = "(old - 2 ^ mutexWaiterShift) OR mutexWoken"
  let ?quiet = "waiterCount old \<noteq> 0 \<and> \<not> locked_bit old \<and> \<not> woken_bit old \<and> \<not> starving_bit old"
  have fields: "waiterCount old \<noteq> 0 \<Longrightarrow> waiterCount ?new = waiterCount old - 1"
      "woken_bit ?new" "locked_bit ?new = locked_bit old" "starving_bit ?new = starving_bit old"
    by (simp_all add: flag_updates flags_sub_waiter waiterCount_flags waiterCount_dec)
  have slow: "\<not> locked_bit new \<and> \<not> starving_bit new \<longrightarrow>
      unlockSlow new w = Done (unlockSlow_loop new w)"
    using add_locked[of new] by (auto simp: unlockSlow_def word_view flag_updates const_nonzero)
  have stop: "waiterCount old = 0 \<or> locked_bit old \<or> woken_bit old \<or> starving_bit old \<longrightarrow>
        unlockSlow_loop old w = w"
    by (subst unlockSlow_loop.simps) (auto simp: word_view)
  have wake: "unlockSlow_loop old w = runtime_Semrelease False ((env_step w)\<lparr> state := ?new \<rparr>)"
    if "?quiet" and "state (env_step w) = old"
    using that
    by (subst unlockSlow_loop.simps) (simp add: word_view CompareAndSwapInt32_def Let_def)
  have woken: "\<exists>w'. unlockSlow_loop old w = w'
                 \<and> state w' = ?new
                 \<and> waiterCount (state w') = waiterCount old - 1
                 \<and> woken_bit (state w') \<and> \<not> locked_bit (state w') \<and> \<not> starving_bit (state w')
                 \<and> calls w' = calls w @ [Semrelease False]"
    if "?quiet" and "state (env_step w) = old"
    using that wake fields by (simp add: runtime_Semrelease_def env_step_calls)
  have retry: "unlockSlow_loop old w
          = unlockSlow_loop (state (env_step (env_step w))) (env_step (env_step w))"
    if "?quiet" and "state (env_step w) \<noteq> old"
    using that
    by (subst unlockSlow_loop.simps)
       (simp add: word_view CompareAndSwapInt32_def load_state_def Let_def)
  show ?thesis
  proof (intro conjI)
    show "\<not> locked_bit new \<and> \<not> starving_bit new \<longrightarrow>
      unlockSlow new w = Done (unlockSlow_loop new w)"
      by (rule slow)
    show "waiterCount old = 0 \<or> locked_bit old \<or> woken_bit old \<or> starving_bit old \<longrightarrow>
        unlockSlow_loop old w = w"
      by (rule stop)
    show "?quiet \<longrightarrow>
        (if state (env_step w) = old
         then (\<exists>w'. unlockSlow_loop old w = w'
                 \<and> state w' = ?new
                 \<and> waiterCount (state w') = waiterCount old - 1
                 \<and> woken_bit (state w') \<and> \<not> locked_bit (state w') \<and> \<not> starving_bit (state w')
                 \<and> calls w' = calls w @ [Semrelease False])
         else unlockSlow_loop old w
                = unlockSlow_loop (state (env_step (env_step w))) (env_step (env_step w)))"
    proof (intro impI)
      assume q: "?quiet"
      show "if state (env_step w) = old
         then (\<exists>w'. unlockSlow_loop old w = w'
                 \<and> state w' = ?new
                 \<and> waiterCount (state w') = waiterCount old - 1
                 \<and> woken_bit (state w') \<and> \<not> locked_bit (state w') \<and> \<not> starving_bit (state w')
                 \<and> calls w' = calls w @ [Semrelease False])
         else unlockSlow_loop old w
                = unlockSlow_loop (state (env_step (env_step w))) (env_step (env_step w))"
      proof (cases "state (env_step w) = old")
        case True
        show ?thesis unfolding if_P[OF True] by (rule woken[OF q True])
      next
        case False
        show ?thesis unfolding if_not_P[OF False] by (rule retry[OF q False])
      qed
    qed
  qed
qed

text \<open>The witness: one waiter and no flag, first with nobody else at the mutex, then with
  another goroutine that has queued as a second waiter (state 16) before the swap.\<close>

theorem unlock_normal_mode_witness:
  "\<not> locked_bit 8 \<and> \<not> woken_bit 8 \<and> \<not> starving_bit 8 \<and> waiterCount 8 = 1
   \<and> unlockSlow 8 (quiet_world 8)
        = Done ((quiet_world 2)\<lparr> sema := 1, calls := [Semrelease False] \<rparr>)
   \<and> unlockSlow_loop 8
        ((quiet_world 8)\<lparr> others := [nothing\<lparr> set_state := Some 16 \<rparr>] \<rparr>)
        = unlockSlow_loop 16 (quiet_world 16)
   \<and> unlockSlow_loop 3 (quiet_world 3) = quiet_world 3"
  using unlock_normal_mode[of 8 "quiet_world 8" 8]
    unlock_normal_mode[of 8
      "(quiet_world 8)\<lparr> others := [nothing\<lparr> set_state := Some 16 \<rparr>] \<rparr>" 8]
    unlock_normal_mode[of 3 "quiet_world 3" 3]
  by (simp add: quiet_world_def nothing_def env_step_def other_step_def field_defs
        unlockSlow_loop.simps CompareAndSwapInt32_def runtime_Semrelease_def)

text \<open>
  C9. Starving mode: the state after the subtraction has the starving bit set (and the
  lock was held). The slow path then writes nothing to the state word and calls
  \<^verbatim>\<open>runtime_Semrelease(&m.sema, true, 1)\<close>, the hand-off release, once.
\<close>

theorem unlock_starving_mode:
  assumes "starving_bit new" and "\<not> locked_bit new"
  shows "\<exists>w'. unlockSlow new w = Done w'
           \<and> state w' = state w
           \<and> calls w' = calls w @ [Semrelease True]
           \<and> others w' = others w \<and> clock w' = clock w"
  using assms add_locked[of new]
  by (simp add: unlockSlow_def word_view flag_updates runtime_Semrelease_def const_nonzero)

theorem unlock_starving_mode_witness:
  "starving_bit 12 \<and> \<not> locked_bit 12
   \<and> unlockSlow 12 (quiet_world 12)
        = Done ((quiet_world 12)\<lparr> sema := 1, calls := [Semrelease True] \<rparr>)"
  using unlock_starving_mode[of 12 "quiet_world 12"]
  by (simp add: quiet_world_def unlockSlow_def runtime_Semrelease_def field_defs)

section \<open>The older mutex and the go1.16 mutex, one goroutine\<close>

text \<open>
  C10. For one goroutine alone that starts from the state word 0 and calls \<^verbatim>\<open>Lock\<close> and
  \<^verbatim>\<open>Unlock\<close> in turn, every call of either mutex returns and both leave the same state
  words behind: \<^verbatim>\<open>mutexLocked\<close> after each \<^verbatim>\<open>Lock\<close>, 0 after each \<^verbatim>\<open>Unlock\<close>. For one
  goroutine alone at any state word, \<^verbatim>\<open>Unlock\<close> of either mutex ends in an error exactly
  when the locked bit is clear, and the error of both has the message
  ``sync: unlock of unlocked mutex'' (a \<^verbatim>\<open>throw\<close> in go1.16, a \<^verbatim>\<open>panic\<close> in the older file).
\<close>

theorem old_and_new_agree:
  "(state w = 0 \<and> uncontended w \<longrightarrow>
      lock_unlock_trace (Lock fuel runtime_canSpin) Unlock n w
        = Some (concat (replicate n [mutexLocked, 0]))
      \<and> lock_unlock_trace (Lock_old fuel') Unlock_old n w
        = lock_unlock_trace (Lock fuel runtime_canSpin) Unlock n w)
   \<and> (uncontended u \<longrightarrow>
        (fatal_of (Unlock u) \<noteq> None \<longleftrightarrow> \<not> locked_bit (state u))
      \<and> (fatal_of (Unlock_old u) \<noteq> None \<longleftrightarrow> \<not> locked_bit (state u))
      \<and> map_option message (fatal_of (Unlock u)) = map_option message (fatal_of (Unlock_old u))
      \<and> (\<not> locked_bit (state u) \<longrightarrow>
            map_option message (fatal_of (Unlock u)) = Some ''sync: unlock of unlocked mutex''))"
  using trace_go116[of w fuel runtime_canSpin n] trace_old[of w fuel' n]
    Unlock_fatal[of u] Unlock_old_fatal[of u] env_step_uncontended[of u]
  by simp

theorem old_and_new_agree_witness:
  "state (quiet_world 0) = 0 \<and> uncontended (quiet_world 0)
   \<and> lock_unlock_trace (Lock 0 (\<lambda>i. i < 4)) Unlock 2 (quiet_world 0) = Some [1, 0, 1, 0]
   \<and> lock_unlock_trace (Lock_old 0) Unlock_old 2 (quiet_world 0) = Some [1, 0, 1, 0]
   \<and> \<not> locked_bit (state (quiet_world 6))
   \<and> fatal_of (Unlock (quiet_world 6)) = Some (Throw ''sync: unlock of unlocked mutex'')
   \<and> fatal_of (Unlock_old (quiet_world 6)) = Some (Panic ''sync: unlock of unlocked mutex'')"
  using old_and_new_agree[of "quiet_world 0" 0 "\<lambda>i. i < 4" 2 0 "quiet_world 6"]
    Unlock_fatal[of "quiet_world 6"] Unlock_old_fatal[of "quiet_world 6"]
  by (simp add: quiet_world_def uncontended_def env_step_def field_defs eval_nat_numeral)

section \<open>The concurrent map: store then load\<close>

lemma map_invariant_well_formed: "map_invariant m \<Longrightarrow> well_formed m"
  by (simp add: map_invariant_def well_formed_def)

lemma map_invariant_newMap: "map_invariant newMap"
  by (simp add: map_invariant_def newMap_def)

lemma copyLive_keeps_live:
  "copyLive r sl = (c, sl') \<Longrightarrow> sl e = Live v \<Longrightarrow> sl' e = Live v"
proof (induction r sl arbitrary: c sl' rule: copyLive.induct)
  case (1 sl)
  then show ?case by simp
next
  case (2 k e' r sl)
  show ?case
  proof (cases "sl e'")
    case (Live x)
    with 2 show ?thesis by (auto split: prod.splits)
  next
    case Deleted
    with "2.prems"(2) have "e \<noteq> e'" by auto
    then have "(sl(e' := Expunged)) e = Live v"
      using "2.prems"(2) by simp
    moreover have "copyLive r (sl(e' := Expunged)) = (c, sl')"
      using "2.prems"(1) Deleted by simp
    ultimately show ?thesis
      using "2.IH"(2)[OF Deleted] by blast
  next
    case Expunged
    with 2 show ?thesis by simp
  qed
qed

lemma copyLive_copies_live:
  "copyLive r sl = (c, sl') \<Longrightarrow> (k, e) \<in> set c \<Longrightarrow> \<exists>v. sl e = Live v"
  by (induction r sl arbitrary: c sl' rule: copyLive.induct)
     (auto split: slot.splits prod.splits if_splits)

lemma copyLive_live:
  "copyLive r sl = (c, sl') \<Longrightarrow> (k, e) \<in> set c \<Longrightarrow> sl' e \<noteq> Expunged"
  using copyLive_copies_live[of r sl c sl' k e] copyLive_keeps_live[of r sl c sl' e]
  by auto

lemma set_update_subset: "set (AList.update k e al) \<subseteq> insert (k, e) (set al)"
  by (induction al) auto

lemma map_invariant_store:
  assumes "map_invariant m"
  shows "map_invariant (store k v m)"
proof (cases "map_of (readSnapshot m) k")
  case (Some e)
  show ?thesis
  proof (cases "slots m e")
    case Expunged
    have "amended m"
      using assms Some Expunged map_of_SomeD[OF Some] by (auto simp: map_invariant_def)
    then show ?thesis
      using assms Some Expunged set_update_subset[of k e "writeMap m"]
      by (auto simp: map_invariant_def store_def)
  qed (use assms Some in \<open>auto simp: map_invariant_def store_def\<close>)
next
  case None
  show ?thesis
  proof (cases "map_of (writeMap m) k")
    case (Some e)
    then show ?thesis
      using assms None by (auto simp: map_invariant_def store_def)
  next
    case wNone: None
    show ?thesis
    proof (cases "amended m")
      case True
      then show ?thesis
        using assms None wNone set_update_subset[of k "fresh m" "writeMap m"]
        by (auto simp: map_invariant_def store_def Let_def)
    next
      case False
      obtain c sl where cl: "copyLive (readSnapshot m) (slots m) = (c, sl)"
        by fastforce
      have "\<forall>(k', e') \<in> set c. sl e' \<noteq> Expunged"
        using copyLive_live[OF cl] by auto
      then show ?thesis
        using False None wNone cl set_update_subset[of k "fresh m" c]
        by (auto simp: map_invariant_def store_def Let_def)
    qed
  qed
qed

lemma map_invariant_load: "map_invariant m \<Longrightarrow> map_invariant (snd (load k m))"
  by (auto simp: map_invariant_def load_def recordMiss_def promote_def Let_def split: option.splits)

lemma map_invariant_ops: "map_invariant m \<Longrightarrow> map_invariant (apply_ops ops m)"
proof (induction ops arbitrary: m)
  case Nil
  then show ?case by simp
next
  case (Cons x xs)
  have "map_invariant (apply_op x m)"
    using Cons.prems by (cases x) (simp_all add: map_invariant_store map_invariant_load)
  then show ?case
    using Cons.IH by simp
qed

text \<open>Every map that a run of \<^verbatim>\<open>store\<close> and \<^verbatim>\<open>load\<close> calls builds from the new map is
  well formed.\<close>

lemma well_formed_ops: "well_formed (apply_ops ops newMap)"
  by (intro map_invariant_well_formed map_invariant_ops map_invariant_newMap)



end
